theory Spec2Isabelle
  imports Complex_Main "HOL-Library.Sublist"
begin

section \<open>Data model of \<open>FORGE.ObjectRenderer\<close>\<close>

text \<open>
  The orchestrator of \<^verbatim>\<open>src/render/ObjectRenderer.js\<close> mutates objects that it shares
  with its collaborators: several entries of the object list may point to one mesh, and
  several meshes to one material of the renderer's pool. Meshes and materials therefore
  live in two stores addressed by references; \<open>===\<close> on two objects is equality of
  their references.
\<close>

type_synonym ref = nat

type_synonym color = nat

type_synonym uniforms = "(string \<times> real) list"

text \<open>
  Modelled from the spec: the enumeration \<^verbatim>\<open>FORGE.ViewType\<close> is declared outside
  the source file; the spec gives it as UNDEFINED, RECTILINEAR and other projection
  kinds.
\<close>

datatype view_type = UNDEFINED | RECTILINEAR | OtherProjection nat

text \<open>
  Modelled from the spec: \<^verbatim>\<open>FORGE.HotspotMaterial.types\<close> is declared outside the
  source file; the code only tells GRAPHICS from every other type.
\<close>

datatype hotspot_material_type = GRAPHICS | OtherMaterialType nat

datatype three_side = FrontSide | BackSide | DoubleSide

text \<open>
  The object's material descriptor (\<^verbatim>\<open>object.material\<close>); the code reads it and never
  writes it. \<open>getThreeSide\<close> is the value its accessor of that name returns. The opacity
  is only copied, never computed with.
\<close>

record hotspot_material =
  mtype :: hotspot_material_type
  transparent :: bool
  opacity :: real
  getThreeSide :: three_side

text \<open>
  A material of the scene-graph library (\<^verbatim>\<open>mesh.material\<close>). \<open>program = None\<close> is
  \<^verbatim>\<open>typeof material.program === "undefined"\<close>.
\<close>

record three_material =
  program :: "nat option"
  side :: three_side
  three_transparent :: bool
  three_opacity :: real
  uniforms :: uniforms

text \<open>
  A mesh; \<open>pickingColor\<close> is \<^verbatim>\<open>mesh.userData.pickingColor\<close>, \<open>None\<close> while it is
  not set; \<open>mesh_material\<close> is the reference held in \<^verbatim>\<open>mesh.material\<close>.
\<close>

record three_mesh =
  mesh_id :: int
  mesh_material :: ref
  frustumCulled :: bool
  pickingColor :: "color option"

record object3d =
  mesh :: ref
  material :: hotspot_material
  ready :: bool
  interactive :: bool

record view =
  view_type :: view_type
  updateUniforms :: "uniforms \<Rightarrow> uniforms"

text \<open>
  A viewport: \<open>vp_ref\<close> is the identity of the object (what \<open>===\<close> compares), \<open>uid\<close>
  its \<^verbatim>\<open>uid\<close> property, \<open>view_current\<close> is \<^verbatim>\<open>viewport.view.current\<close> and \<open>camera_main\<close>
  is \<^verbatim>\<open>viewport.camera.main\<close>.
\<close>

record viewport =
  vp_ref :: ref
  uid :: string
  view_current :: view
  camera_main :: ref

text \<open>
  What the orchestrator reads of the viewer: the material pool behind
  \<^verbatim>\<open>viewer.renderer.getMaterialForView\<close>, which answers with a reference into the
  material store, and \<^verbatim>\<open>viewer.story.scene.activeViewport\<close> (\<open>None\<close> is null).
\<close>

record viewer =
  getMaterialForView :: "view_type \<Rightarrow> string \<Rightarrow> bool \<Rightarrow> ref"
  activeViewport :: "ref option"

record three_scene =
  children :: "ref list option"

datatype picking = Picking

text \<open>
  The fields of an instance (\<open>None\<close> is null), together with the two stores. The cached
  viewport is kept with the \<^verbatim>\<open>uid\<close> it has, which no code here changes.
\<close>

record state =
  viewer :: "viewer option"
  scene :: "three_scene option"
  objects :: "object3d list option"
  lastViewport :: "viewport option"
  lastViewType :: view_type
  picking :: "picking option"
  meshes :: "ref \<Rightarrow> three_mesh"
  materials :: "ref \<Rightarrow> three_material"

text \<open>
  A TypeError of JavaScript, with the property whose access on null raised it.
\<close>

datatype error = TypeError string

text \<open>
  The calls and writes a test double would record: a material replacement (the mesh,
  and the key given to \<^verbatim>\<open>getMaterialForView\<close>), \<^verbatim>\<open>view.updateUniforms\<close> on the uniforms
  of a material, \<^verbatim>\<open>webGLRenderer.compile(scene, camera)\<close>,
  \<^verbatim>\<open>webGLRenderer.render(scene, camera, target)\<close>, \<^verbatim>\<open>picking.render(viewport)\<close>,
  \<^verbatim>\<open>picking.destroy()\<close> and \<^verbatim>\<open>FORGE.BaseObject.prototype.destroy\<close>. The draw calls
  are external: the stores keep only what the orchestrator itself writes.
\<close>

datatype event =
    is_MaterialReplaced: MaterialReplaced (replaced_mesh: ref) view_type string bool
  | is_UpdateUniforms: UpdateUniforms ref
  | is_WebGLCompile: WebGLCompile "ref list" ref
  | is_WebGLRender: WebGLRender "ref list" ref ref
  | is_PickingRender: PickingRender ref
  | PickingDestroy
  | BaseObjectDestroy

section \<open>Construction\<close>

text \<open>
  \<^verbatim>\<open>THREE.Scene.add\<close> of the scene-graph library: a node that already has a parent is
  detached from it, then appended to the children.
\<close>

definition scene_add :: "ref list \<Rightarrow> ref \<Rightarrow> ref list" where
  "scene_add ch m = remove1 m ch @ [m]"

text \<open>
  The loop of \<^verbatim>\<open>_boot\<close>. \<^verbatim>\<open>FORGE.Picking.colorFromObjectID\<close> is declared outside the
  source file and is a parameter.
\<close>

fun boot_objects ::
  "(int \<Rightarrow> color) \<Rightarrow> object3d list \<Rightarrow> ref list \<times> (ref \<Rightarrow> three_mesh)
     \<Rightarrow> ref list \<times> (ref \<Rightarrow> three_mesh)" where
  "boot_objects colorFromObjectID [] (ch, ms) = (ch, ms)"
| "boot_objects colorFromObjectID (obj # objs) (ch, ms) =
     (let m = mesh obj;
          ms' = ms(m := (ms m)\<lparr>pickingColor := Some (colorFromObjectID (mesh_id (ms m)))\<rparr>)
      in boot_objects colorFromObjectID objs (scene_add ch m, ms'))"

definition boot :: "(int \<Rightarrow> color) \<Rightarrow> state \<Rightarrow> error + state" where
  "boot colorFromObjectID s =
     (case objects s of
        None \<Rightarrow> Inl (TypeError ''length'')
      | Some objs \<Rightarrow>
          (case boot_objects colorFromObjectID objs ([], meshes s) of
             (ch, ms) \<Rightarrow>
               Inr (s\<lparr>scene := Some \<lparr>children = Some ch\<rparr>, picking := Some Picking,
                       meshes := ms\<rparr>)))"

text \<open>
  The constructor, in the stores \<open>ms\<close> and \<open>mats\<close> it is called in.
\<close>

definition ObjectRenderer ::
  "(int \<Rightarrow> color) \<Rightarrow> viewer \<Rightarrow> object3d list \<Rightarrow> (ref \<Rightarrow> three_mesh)
     \<Rightarrow> (ref \<Rightarrow> three_material) \<Rightarrow> error + state" where
  "ObjectRenderer colorFromObjectID v objs ms mats =
     boot colorFromObjectID
       \<lparr>viewer = Some v, scene = None, objects = Some objs, lastViewport = None,
        lastViewType = UNDEFINED, picking = None, meshes = ms, materials = mats\<rparr>"

section \<open>Pickable objects\<close>

definition pickable :: "object3d \<Rightarrow> bool" where
  "pickable obj = (ready obj = True \<and> interactive obj = True)"

definition getPickableObjects :: "state \<Rightarrow> error + object3d list" where
  "getPickableObjects s =
     (case objects s of
        None \<Rightarrow> Inl (TypeError ''filter'')
      | Some objs \<Rightarrow> Inr (filter pickable objs))"

definition getPickableObjectWithId :: "state \<Rightarrow> int \<Rightarrow> error + object3d option" where
  "getPickableObjectWithId s i =
     (case getPickableObjects s of
        Inl e \<Rightarrow> Inl e
      | Inr objs \<Rightarrow> Inr (find (\<lambda>obj. mesh_id (meshes s (mesh obj)) = i) objs))"

section \<open>Render\<close>

text \<open>
  The condition of lines 152 to 156, on the state the loop has reached.
\<close>

definition renew_needed :: "state \<Rightarrow> viewport \<Rightarrow> object3d \<Rightarrow> bool" where
  "renew_needed s vp obj =
     ((case lastViewport s of None \<Rightarrow> True | Some lv \<Rightarrow> uid lv \<noteq> uid vp) \<or>
      lastViewType s = UNDEFINED \<or>
      lastViewType s \<noteq> view_type (view_current vp) \<or>
      three_transparent (materials s (mesh_material (meshes s (mesh obj))))
        \<noteq> transparent (material obj))"

definition shaderType :: "hotspot_material \<Rightarrow> string" where
  "shaderType mat = (if mtype mat = GRAPHICS then ''color'' else ''map'')"

text \<open>
  Lines 158 to 163: the culling flag, then the material reference.
\<close>

definition renew_material :: "viewport \<Rightarrow> object3d \<Rightarrow> state \<Rightarrow> error + event list \<times> state" where
  "renew_material vp obj s =
     (let vt = view_type (view_current vp);
          m = mesh obj;
          s1 = s\<lparr>meshes := (meshes s)(m := (meshes s m)\<lparr>frustumCulled := (vt = RECTILINEAR)\<rparr>)\<rparr>
      in case viewer s1 of
           None \<Rightarrow> Inl (TypeError ''renderer'')
         | Some v \<Rightarrow>
             Inr ([MaterialReplaced m vt (shaderType (material obj)) (transparent (material obj))],
                  s1\<lparr>meshes := (meshes s1)(m := (meshes s1 m)
                     \<lparr>mesh_material := getMaterialForView v vt (shaderType (material obj))
                                          (transparent (material obj))\<rparr>)\<rparr>))"

text \<open>
  Lines 167 to 171, on the material the mesh holds now.
\<close>

definition update_material :: "viewport \<Rightarrow> object3d \<Rightarrow> state \<Rightarrow> event list \<times> state" where
  "update_material vp obj s =
     (let r = mesh_material (meshes s (mesh obj));
          mat = material obj
      in ([UpdateUniforms r],
          s\<lparr>materials := (materials s)(r := (materials s r)
               \<lparr>side := getThreeSide mat,
                three_transparent := transparent mat,
                three_opacity := opacity mat,
                uniforms := updateUniforms (view_current vp) (uniforms (materials s r))\<rparr>)\<rparr>))"

text \<open>
  One turn of the loop of lines 140 to 172, on the flag \<open>compilationNeeded\<close>, the
  events so far and the state.
\<close>

definition reconcile ::
  "viewport \<Rightarrow> object3d \<Rightarrow> bool \<times> event list \<times> state \<Rightarrow> error + bool \<times> event list \<times> state" where
  "reconcile vp obj l =
     (case l of (compilationNeeded, tr, s) \<Rightarrow>
        (let compilationNeeded' =
               (if program (materials s (mesh_material (meshes s (mesh obj)))) = None
                then True else compilationNeeded)
         in case (if renew_needed s vp obj then renew_material vp obj s else Inr ([], s)) of
              Inl e \<Rightarrow> Inl e
            | Inr (ev, s1) \<Rightarrow>
                (case update_material vp obj s1 of
                   (ev', s2) \<Rightarrow> Inr (compilationNeeded', tr @ ev @ ev', s2))))"

fun for_objects ::
  "viewport \<Rightarrow> object3d list \<Rightarrow> bool \<times> event list \<times> state
     \<Rightarrow> error + bool \<times> event list \<times> state" where
  "for_objects vp [] l = Inr l"
| "for_objects vp (obj # objs) l =
     (case reconcile vp obj l of
        Inl e \<Rightarrow> Inl e
      | Inr l' \<Rightarrow> for_objects vp objs l')"

definition render :: "state \<Rightarrow> viewport \<Rightarrow> ref \<Rightarrow> error + event list \<times> state" where
  "render s vp target =
     (case scene s of
        None \<Rightarrow> Inl (TypeError ''children'')
      | Some sc \<Rightarrow>
     (case children sc of
        None \<Rightarrow> Inl (TypeError ''length'')
      | Some ch \<Rightarrow>
          if length ch = 0 then Inr ([], s)
          else
     (case objects s of
        None \<Rightarrow> Inl (TypeError ''length'')
      | Some objs \<Rightarrow>
     (case for_objects vp objs (False, [], s) of
        Inl e \<Rightarrow> Inl e
      | Inr (compilationNeeded, tr, s1) \<Rightarrow>
     (case viewer s1 of
        None \<Rightarrow> Inl (TypeError ''renderer'')
      | Some v \<Rightarrow>
     (let camera = camera_main vp;
          tr1 = tr @ (if compilationNeeded = True then [WebGLCompile ch camera] else [])
                   @ [WebGLRender ch camera target]
      in case getPickableObjects s1 of
           Inl e \<Rightarrow> Inl e
         | Inr pk \<Rightarrow>
             if activeViewport v = Some (vp_ref vp) \<and> length pk > 0
             then (case picking s1 of
                     None \<Rightarrow> Inl (TypeError ''render'')
                   | Some p \<Rightarrow>
                       Inr (tr1 @ [PickingRender (vp_ref vp)],
                            s1\<lparr>lastViewport := Some vp,
                               lastViewType := view_type (view_current vp)\<rparr>))
             else Inr (tr1, s1\<lparr>lastViewport := Some vp,
                               lastViewType := view_type (view_current vp)\<rparr>)))))))"

text \<open>
  Successive render calls, one per (viewport, target), with nothing else touching the
  state in between; the events of all the calls, in order.
\<close>

fun render_frames :: "state \<Rightarrow> (viewport \<times> ref) list \<Rightarrow> error + event list \<times> state" where
  "render_frames s [] = Inr ([], s)"
| "render_frames s ((vp, target) # fs) =
     (case render s vp target of
        Inl e \<Rightarrow> Inl e
      | Inr (tr, s1) \<Rightarrow>
          (case render_frames s1 fs of
             Inl e \<Rightarrow> Inl e
           | Inr (tr', s2) \<Rightarrow> Inr (tr @ tr', s2)))"

text \<open>
  The event is a replacement of the material of the mesh \<open>m\<close>.
\<close>

definition replaces :: "ref \<Rightarrow> event \<Rightarrow> bool" where
  "replaces m e = (is_MaterialReplaced e \<and> replaced_mesh e = m)"

text \<open>
  The event is one of the two calls to the WebGL renderer, pre-compilation or draw.
\<close>

definition is_draw_call :: "event \<Rightarrow> bool" where
  "is_draw_call e = (is_WebGLCompile e \<or> is_WebGLRender e)"


text \<open>
  The cached viewport has the uid of the current one and the cached view type is the
  current one.
\<close>

definition cache_matches :: "state \<Rightarrow> viewport \<Rightarrow> bool" where
  "cache_matches s vp =
     ((case lastViewport s of None \<Rightarrow> False | Some lv \<Rightarrow> uid lv = uid vp) \<and>
      lastViewType s = view_type (view_current vp))"

text \<open>
  For the view type, the pool never returns one material for both transparency flags,
  whatever the two shading kinds.
\<close>

definition pool_separates :: "viewer \<Rightarrow> view_type \<Rightarrow> bool" where
  "pool_separates v vt =
     (\<forall>sh \<in> set [''color'', ''map'']. \<forall>sh' \<in> set [''color'', ''map''].
        getMaterialForView v vt sh True \<noteq> getMaterialForView v vt sh' False)"

text \<open>
  If the material the object's mesh holds is one the pool returns for the view type, its
  transparency is the one of the pool's key.
\<close>

definition pool_keyed :: "viewer \<Rightarrow> view_type \<Rightarrow> state \<Rightarrow> object3d \<Rightarrow> bool" where
  "pool_keyed v vt s obj =
     (\<forall>sh \<in> set [''color'', ''map'']. \<forall>b \<in> set [True, False].
        mesh_material (meshes s (mesh obj)) = getMaterialForView v vt sh b \<longrightarrow>
        three_transparent (materials s (mesh_material (meshes s (mesh obj)))) = b)"

section \<open>Destroy\<close>

text \<open>
  Lines 199 to 202, the guarded release of the picking subsystem.
\<close>

definition release_picking :: "state \<Rightarrow> error + event list \<times> state" where
  "release_picking s =
     (if picking s \<noteq> None then Inr ([PickingDestroy], s\<lparr>picking := None\<rparr>)
      else Inr ([], s))"

text \<open>
  Lines 204 to 213.
\<close>

definition release_references :: "state \<Rightarrow> error + event list \<times> state" where
  "release_references s =
     (let s1 = s\<lparr>objects := None\<rparr>
      in case scene s1 of
           None \<Rightarrow> Inl (TypeError ''children'')
         | Some sc \<Rightarrow>
             (let s2 = s1\<lparr>scene := Some (sc\<lparr>children := None\<rparr>)\<rparr>;
                  s3 = s2\<lparr>scene := None\<rparr>;
                  s4 = s3\<lparr>lastViewport := None\<rparr>;
                  s5 = s4\<lparr>viewer := None\<rparr>
              in Inr ([BaseObjectDestroy], s5)))"

definition destroy :: "state \<Rightarrow> error + event list \<times> state" where
  "destroy s =
     (case release_picking s of
        Inl e \<Rightarrow> Inl e
      | Inr (tr, s1) \<Rightarrow>
          (case release_references s1 of
             Inl e \<Rightarrow> Inl e
           | Inr (tr', s2) \<Rightarrow> Inr (tr @ tr', s2)))"

section \<open>A scene of three hotspots\<close>

text \<open>
  The scenario of the spec: three objects, of which only the first is ready and
  interactive, a material pool keyed by view type, shading kind and transparency, and a
  viewport that the viewer marks active.
\<close>

definition ex_color :: "int \<Rightarrow> color" where
  "ex_color i = nat i"

definition ex_pool :: "view_type \<Rightarrow> string \<Rightarrow> bool \<Rightarrow> ref" where
  "ex_pool vt sh tr =
     (case vt of UNDEFINED \<Rightarrow> 10 | RECTILINEAR \<Rightarrow> 20 | OtherProjection n \<Rightarrow> 30)
       + (if sh = ''color'' then 0 else 2) + (if tr then 1 else 0)"

definition ex_viewer :: viewer where
  "ex_viewer = \<lparr>getMaterialForView = ex_pool, activeViewport = Some 50\<rparr>"

definition ex_mesh :: "ref \<Rightarrow> three_mesh" where
  "ex_mesh r = \<lparr>mesh_id = 100 + int r, mesh_material = 0, frustumCulled = True,
                pickingColor = None\<rparr>"

definition ex_material :: "ref \<Rightarrow> three_material" where
  "ex_material r = \<lparr>program = (if r = 0 then None else Some r), side = FrontSide, three_transparent = False,
                    three_opacity = 1, uniforms = []\<rparr>"

definition ex_object1 :: object3d where
  "ex_object1 = \<lparr>mesh = 1,
     material = \<lparr>mtype = GRAPHICS, transparent = False, opacity = 1, getThreeSide = DoubleSide\<rparr>,
     ready = True, interactive = True\<rparr>"

definition ex_object2 :: object3d where
  "ex_object2 = \<lparr>mesh = 2,
     material = \<lparr>mtype = OtherMaterialType 0, transparent = True, opacity = 1 / 2,
                 getThreeSide = FrontSide\<rparr>,
     ready = True, interactive = False\<rparr>"

definition ex_object3 :: object3d where
  "ex_object3 = \<lparr>mesh = 3,
     material = \<lparr>mtype = GRAPHICS, transparent = False, opacity = 1, getThreeSide = BackSide\<rparr>,
     ready = False, interactive = True\<rparr>"

definition ex_object4 :: object3d where
  "ex_object4 = \<lparr>mesh = 1,
     material = \<lparr>mtype = OtherMaterialType 0, transparent = True, opacity = 1 / 2,
                 getThreeSide = FrontSide\<rparr>,
     ready = True, interactive = True\<rparr>"

definition ex_objects :: "object3d list" where
  "ex_objects = [ex_object1, ex_object2, ex_object3]"

definition ex_updateUniforms :: "uniforms \<Rightarrow> uniforms" where
  "ex_updateUniforms u = [(''tProjectionScale'', 1)]"

definition ex_viewport :: "view_type \<Rightarrow> viewport" where
  "ex_viewport vt = \<lparr>vp_ref = 50, uid = ''viewport-0'',
     view_current = \<lparr>view_type = vt, updateUniforms = ex_updateUniforms\<rparr>,
     camera_main = 60\<rparr>"

text \<open>
  The instance the constructor builds from \<open>ex_objects\<close>, and the same with the first
  object alone.
\<close>

definition ex_state :: state where
  "ex_state =
     \<lparr>viewer = Some ex_viewer, scene = Some \<lparr>children = Some [1, 2, 3]\<rparr>,
      objects = Some ex_objects, lastViewport = None, lastViewType = UNDEFINED,
      picking = Some Picking,
      meshes = snd (boot_objects ex_color ex_objects ([], ex_mesh)),
      materials = ex_material\<rparr>"

definition ex_single :: state where
  "ex_single =
     \<lparr>viewer = Some ex_viewer, scene = Some \<lparr>children = Some [1]\<rparr>,
      objects = Some [ex_object1], lastViewport = None, lastViewType = UNDEFINED,
      picking = Some Picking,
      meshes = snd (boot_objects ex_color [ex_object1] ([], ex_mesh)),
      materials = ex_material\<rparr>"

text \<open>
  An object list in which two pickable entries share the mesh 1 (and so its identity),
  after an entry that is not ready.
\<close>

definition ex_shared :: state where
  "ex_shared =
     \<lparr>viewer = Some ex_viewer, scene = Some \<lparr>children = Some [3, 1]\<rparr>,
      objects = Some [ex_object3, ex_object1, ex_object4], lastViewport = None,
      lastViewType = UNDEFINED, picking = Some Picking,
      meshes = snd (boot_objects ex_color [ex_object3, ex_object1, ex_object4] ([], ex_mesh)),
      materials = ex_material\<rparr>"

text \<open>
  The scene of three hotspots with a pool that ignores the transparency flag.
\<close>

definition ex_flat_pool :: "view_type \<Rightarrow> string \<Rightarrow> bool \<Rightarrow> ref" where
  "ex_flat_pool vt sh tr = 40"

definition ex_flat :: state where
  "ex_flat = ex_state\<lparr>viewer :=
     Some \<lparr>getMaterialForView = ex_flat_pool, activeViewport = Some 50\<rparr>\<rparr>"

text \<open>
  Two hotspots already rendered for the rectilinear viewport, where the mesh of the
  transparent one holds the pool's opaque colour material 20, marked transparent, and
  the opaque one holds the material 0, marked transparent too.
\<close>

definition ex_marked :: "ref \<Rightarrow> three_material" where
  "ex_marked r = (ex_material r)\<lparr>three_transparent := True\<rparr>"

definition ex_unkeyed :: state where
  "ex_unkeyed =
     \<lparr>viewer = Some ex_viewer, scene = Some \<lparr>children = Some [2, 1]\<rparr>,
      objects = Some [ex_object2, ex_object1],
      lastViewport = Some (ex_viewport RECTILINEAR), lastViewType = RECTILINEAR,
      picking = Some Picking,
      meshes = (snd (boot_objects ex_color [ex_object2, ex_object1] ([], ex_mesh)))
                 (2 := (snd (boot_objects ex_color [ex_object2, ex_object1] ([], ex_mesh)) 2)
                         \<lparr>mesh_material := 20\<rparr>),
      materials = ex_marked\<rparr>"

text \<open>
  What a call leaves: its events, and the state for the next call.
\<close>

definition events_of :: "error + event list \<times> state \<Rightarrow> event list option" where
  "events_of r = (case r of Inl e \<Rightarrow> None | Inr (tr, s) \<Rightarrow> Some tr)"

definition state_after :: "state \<Rightarrow> viewport \<Rightarrow> ref \<Rightarrow> state" where
  "state_after s vp target = (case render s vp target of Inl e \<Rightarrow> s | Inr (tr, s') \<Rightarrow> s')"

definition ex_rendered :: state where
  "ex_rendered = state_after ex_state (ex_viewport RECTILINEAR) 70"

definition render_again ::
  "error + event list \<times> state \<Rightarrow> viewport \<Rightarrow> ref \<Rightarrow> error + event list \<times> state" where
  "render_again r vp target = (case r of Inl e \<Rightarrow> Inl e | Inr (tr, s) \<Rightarrow> render s vp target)"

section \<open>Facts about the loops\<close>

lemmas ex_defs = ex_state_def ex_single_def ex_shared_def ex_flat_def ex_flat_pool_def
  ex_unkeyed_def ex_marked_def ex_rendered_def ex_objects_def ex_object1_def
  ex_object2_def ex_object3_def ex_object4_def ex_viewport_def ex_viewer_def ex_pool_def
  ex_mesh_def ex_material_def ex_color_def ex_updateUniforms_def

lemmas render_defs = render_def reconcile_def renew_needed_def renew_material_def
  update_material_def shaderType_def getPickableObjects_def pickable_def scene_add_def
  events_of_def render_again_def state_after_def

text \<open>
  One turn of the render loop on an instance that still holds its viewer: it cannot
  raise, and this is what it leaves.
\<close>

lemma reconcile_live:
  assumes "viewer s = Some v"
  shows "reconcile vp obj (c, tr, s) =
    (let vt = view_type (view_current vp);
         m = mesh obj;
         mat = material obj;
         g = renew_needed s vp obj;
         ms = (if g then (meshes s)(m := (meshes s m)\<lparr>frustumCulled := (vt = RECTILINEAR),
                  mesh_material := getMaterialForView v vt (shaderType mat) (transparent mat)\<rparr>)
               else meshes s);
         r = mesh_material (ms m)
     in Inr (if program (materials s (mesh_material (meshes s m))) = None then True else c,
             tr @ (if g then [MaterialReplaced m vt (shaderType mat) (transparent mat)] else [])
                @ [UpdateUniforms r],
             s\<lparr>meshes := ms,
               materials := (materials s)(r := (materials s r)
                 \<lparr>side := getThreeSide mat, three_transparent := transparent mat,
                  three_opacity := opacity mat,
                  uniforms := updateUniforms (view_current vp) (uniforms (materials s r))\<rparr>)\<rparr>))"
  using assms by (simp add: reconcile_def renew_material_def update_material_def Let_def)

lemma reconcile_frame:
  assumes "reconcile vp obj (c, tr, s) = Inr (c', tr', s')"
  shows "viewer s' = viewer s \<and> scene s' = scene s \<and> objects s' = objects s \<and>
         lastViewport s' = lastViewport s \<and> lastViewType s' = lastViewType s \<and>
         picking s' = picking s"
  using assms
  by (auto simp: reconcile_def renew_material_def update_material_def Let_def
           split: if_splits option.splits)

lemma for_objects_append:
  "for_objects vp (xs @ ys) l =
     (case for_objects vp xs l of Inl e \<Rightarrow> Inl e | Inr l' \<Rightarrow> for_objects vp ys l')"
  by (induction xs arbitrary: l) (auto split: sum.splits)

lemma for_objects_frame:
  assumes "for_objects vp objs (c, tr, s) = Inr (c', tr', s')"
  shows "viewer s' = viewer s \<and> scene s' = scene s \<and> objects s' = objects s \<and>
         lastViewport s' = lastViewport s \<and> lastViewType s' = lastViewType s \<and>
         picking s' = picking s"
  using assms
proof (induction objs arbitrary: c tr s)
  case Nil
  then show ?case by simp
next
  case (Cons obj objs)
  from Cons.prems obtain c1 tr1 s1 where
    r: "reconcile vp obj (c, tr, s) = Inr (c1, tr1, s1)" and
    f: "for_objects vp objs (c1, tr1, s1) = Inr (c', tr', s')"
    by (auto split: sum.splits)
  from reconcile_frame [OF r] Cons.IH [OF f] show ?case by simp
qed

lemma for_objects_live:
  assumes "viewer s = Some v"
  shows "\<exists>c' ev s'. for_objects vp objs (c, tr, s) = Inr (c', tr @ ev, s')"
  using assms
proof (induction objs arbitrary: c tr s)
  case Nil
  then show ?case by simp
next
  case (Cons obj objs)
  from reconcile_live [OF Cons.prems, of vp obj c tr] obtain c1 ev1 s1 where
    r: "reconcile vp obj (c, tr, s) = Inr (c1, tr @ ev1, s1)"
    by (auto simp: Let_def)
  from reconcile_frame [OF r] Cons.prems have "viewer s1 = Some v" by simp
  from Cons.IH [OF this, of c1 "tr @ ev1"] obtain c' ev s' where
    "for_objects vp objs (c1, tr @ ev1, s1) = Inr (c', (tr @ ev1) @ ev, s')" by blast
  with r show ?case by auto
qed

lemma render_live:
  assumes "viewer s = Some v" "scene s = Some sc" "children sc = Some ch" "ch \<noteq> []"
    "objects s = Some objs" "picking s = Some p"
    "for_objects vp objs (False, [], s) = Inr (cn, tr, s1)"
  shows "render s vp target =
    Inr (tr @ (if cn then [WebGLCompile ch (camera_main vp)] else [])
            @ [WebGLRender ch (camera_main vp) target]
            @ (if activeViewport v = Some (vp_ref vp) \<and> filter pickable objs \<noteq> []
               then [PickingRender (vp_ref vp)] else []),
         s1\<lparr>lastViewport := Some vp, lastViewType := view_type (view_current vp)\<rparr>)"
proof -
  from for_objects_frame [OF assms(7)] assms
  have "viewer s1 = Some v" "objects s1 = Some objs" "picking s1 = Some p" by simp_all
  with assms show ?thesis
    by (simp add: render_def getPickableObjects_def Let_def)
qed

lemma for_objects_events:
  assumes "viewer s = Some v"
  shows "\<exists>c' ev s'. for_objects vp objs (c, tr, s) = Inr (c', tr @ ev, s') \<and>
           (\<forall>e \<in> set ev. is_MaterialReplaced e \<or> is_UpdateUniforms e) \<and>
           length (filter is_UpdateUniforms ev) = length objs"
  using assms
proof (induction objs arbitrary: c tr s)
  case Nil
  then show ?case by simp
next
  case (Cons obj objs)
  from reconcile_live [OF Cons.prems, of vp obj c tr] obtain c1 ev1 s1 where
    r: "reconcile vp obj (c, tr, s) = Inr (c1, tr @ ev1, s1)"
    and e1: "\<forall>e \<in> set ev1. is_MaterialReplaced e \<or> is_UpdateUniforms e"
    and u1: "length (filter is_UpdateUniforms ev1) = 1"
    by (auto simp: Let_def)
  from reconcile_frame [OF r] Cons.prems have "viewer s1 = Some v" by simp
  from Cons.IH [OF this, of c1 "tr @ ev1"] obtain c' ev s' where
    f: "for_objects vp objs (c1, tr @ ev1, s1) = Inr (c', (tr @ ev1) @ ev, s')"
    and e2: "\<forall>e \<in> set ev. is_MaterialReplaced e \<or> is_UpdateUniforms e"
    and u2: "length (filter is_UpdateUniforms ev) = length objs"
    by blast
  have "for_objects vp (obj # objs) (c, tr, s) = Inr (c', tr @ (ev1 @ ev), s')"
    using r f by simp
  moreover have "\<forall>e \<in> set (ev1 @ ev). is_MaterialReplaced e \<or> is_UpdateUniforms e"
    using e1 e2 by auto
  moreover have "length (filter is_UpdateUniforms (ev1 @ ev)) = length (obj # objs)"
    using u1 u2 by simp
  ultimately show ?case by blast
qed

lemma reconcile_flag:
  assumes "reconcile vp obj (c, tr, s) = Inr (c', tr', s')"
  shows "c' = (c \<or> program (materials s (mesh_material (meshes s (mesh obj)))) = None)"
  using assms
  by (auto simp: reconcile_def Let_def split: if_splits sum.splits prod.splits)

lemma for_objects_snoc:
  "for_objects vp (xs @ [x]) l =
     (case for_objects vp xs l of Inl e \<Rightarrow> Inl e | Inr l' \<Rightarrow> reconcile vp x l')"
  by (simp add: for_objects_append split: sum.splits)

lemma for_objects_flag:
  "for_objects vp objs (c, tr, s) = Inr (c', tr', s') \<Longrightarrow>
     c' = (c \<or> (\<exists>pre obj post cj trj sj. objs = pre @ obj # post \<and>
                  for_objects vp pre (c, tr, s) = Inr (cj, trj, sj) \<and>
                  program (materials sj (mesh_material (meshes sj (mesh obj)))) = None))"
proof (induction objs arbitrary: c' tr' s' rule: rev_induct)
  case Nil
  then show ?case by simp
next
  case (snoc x xs)
  let ?D = "\<lambda>ys. \<exists>pre obj post cj trj sj. ys = pre @ obj # post \<and>
                  for_objects vp pre (c, tr, s) = Inr (cj, trj, sj) \<and>
                  program (materials sj (mesh_material (meshes sj (mesh obj)))) = None"
  from snoc.prems obtain c1 tr1 s1 where
    f: "for_objects vp xs (c, tr, s) = Inr (c1, tr1, s1)" and
    r: "reconcile vp x (c1, tr1, s1) = Inr (c', tr', s')"
    by (auto simp: for_objects_snoc split: sum.splits)
  from snoc.IH [OF f] have c1: "c1 = (c \<or> ?D xs)" .
  from reconcile_flag [OF r]
  have c': "c' = (c1 \<or> program (materials s1 (mesh_material (meshes s1 (mesh x)))) = None)" .
  have e: "?D (xs @ [x]) \<longleftrightarrow>
          ?D xs \<or> program (materials s1 (mesh_material (meshes s1 (mesh x)))) = None"
  proof
    assume "?D (xs @ [x])"
    then obtain pre obj post cj trj sj where
      d: "xs @ [x] = pre @ obj # post" and
      fj: "for_objects vp pre (c, tr, s) = Inr (cj, trj, sj)" and
      pj: "program (materials sj (mesh_material (meshes sj (mesh obj)))) = None"
      by blast
    show "?D xs \<or> program (materials s1 (mesh_material (meshes s1 (mesh x)))) = None"
    proof (cases post rule: rev_cases)
      case Nil
      with d have "pre = xs" "obj = x" by simp_all
      with fj f pj show ?thesis by simp
    next
      case (snoc post' y)
      with d have "xs = pre @ obj # post'" by simp
      with fj pj have "?D xs" by blast
      then show ?thesis ..
    qed
  next
    assume a: "?D xs \<or> program (materials s1 (mesh_material (meshes s1 (mesh x)))) = None"
    then show "?D (xs @ [x])"
    proof
      assume "?D xs"
      then obtain pre obj post cj trj sj where
        d: "xs = pre @ obj # post" and
        fj: "for_objects vp pre (c, tr, s) = Inr (cj, trj, sj)" and
        pj: "program (materials sj (mesh_material (meshes sj (mesh obj)))) = None"
        by blast
      from d have "xs @ [x] = pre @ obj # (post @ [x])" by simp
      with fj pj show ?thesis by blast
    next
      assume "program (materials s1 (mesh_material (meshes s1 (mesh x)))) = None"
      moreover have "xs @ [x] = xs @ x # []" by simp
      ultimately show ?thesis using f by blast
    qed
  qed
  show ?case unfolding c' c1 e by (rule disj_assoc)
qed

lemma for_objects_split:
  assumes "viewer s = Some v"
  shows "\<exists>cj evj sj cj' ev1 sj' c' ev2 s'.
           for_objects vp pre (c, tr, s) = Inr (cj, tr @ evj, sj) \<and>
           viewer sj = Some v \<and>
           lastViewport sj = lastViewport s \<and> lastViewType sj = lastViewType s \<and>
           reconcile vp obj (cj, tr @ evj, sj) = Inr (cj', tr @ evj @ ev1, sj') \<and>
           for_objects vp (pre @ obj # post) (c, tr, s) = Inr (c', tr @ evj @ ev1 @ ev2, s')"
proof -
  from for_objects_live [OF assms, of vp pre c tr] obtain cj evj sj where
    f: "for_objects vp pre (c, tr, s) = Inr (cj, tr @ evj, sj)" by blast
  from for_objects_frame [OF f] assms have
    vj: "viewer sj = Some v" and
    lj: "lastViewport sj = lastViewport s" "lastViewType sj = lastViewType s" by simp_all
  from reconcile_live [OF vj, of vp obj cj "tr @ evj"] obtain cj' ev1 sj' where
    r: "reconcile vp obj (cj, tr @ evj, sj) = Inr (cj', (tr @ evj) @ ev1, sj')"
    by (auto simp: Let_def)
  from reconcile_frame [OF r] vj have vj': "viewer sj' = Some v" by simp
  from for_objects_live [OF vj', of vp post cj' "(tr @ evj) @ ev1"] obtain c' ev2 s' where
    g: "for_objects vp post (cj', (tr @ evj) @ ev1, sj') = Inr (c', ((tr @ evj) @ ev1) @ ev2, s')"
    by blast
  have "for_objects vp (pre @ obj # post) (c, tr, s) = Inr (c', tr @ evj @ ev1 @ ev2, s')"
    using f r g by (simp add: for_objects_append)
  with f vj lj r show ?thesis by (simp del: for_objects.simps)
qed


lemma render_prefix:
  assumes "viewer s = Some v" "scene s = Some sc" "children sc = Some ch" "ch \<noteq> []"
    "objects s = Some objs" "picking s = Some p"
    "for_objects vp objs (False, [], s) = Inr (cn, ev @ ev', s1)"
  shows "\<exists>tr s'. render s vp target = Inr (tr, s') \<and> prefix ev tr \<and>
           length (filter is_UpdateUniforms tr) = length (filter is_UpdateUniforms (ev @ ev')) \<and>
           filter is_MaterialReplaced tr = filter is_MaterialReplaced (ev @ ev') \<and>
           meshes s' = meshes s1 \<and> materials s' = materials s1 \<and>
           lastViewport s' = Some vp \<and> lastViewType s' = view_type (view_current vp) \<and>
           viewer s' = Some v \<and> scene s' = Some sc \<and> objects s' = Some objs \<and>
           picking s' = Some p"
proof -
  from for_objects_frame [OF assms(7)] assms have
    fr: "viewer s1 = Some v" "scene s1 = Some sc" "objects s1 = Some objs" "picking s1 = Some p"
    by simp_all
  show ?thesis
    unfolding render_live [OF assms, of target]
    by (simp add: fr)
qed




lemma reconcile_culling:
  assumes "viewer s = Some v"
  shows "\<exists>c' ev s'. reconcile vp obj (c, tr, s) = Inr (c', tr @ ev, s') \<and>
           ((\<exists>e \<in> set ev. replaces m e) \<longrightarrow>
              frustumCulled (meshes s' m) = (view_type (view_current vp) = RECTILINEAR)) \<and>
           ((\<forall>e \<in> set ev. \<not> replaces m e) \<longrightarrow> meshes s' m = meshes s m)"
  unfolding reconcile_live [OF assms]
  by (auto simp: Let_def replaces_def)

lemma for_objects_culling:
  assumes "viewer s = Some v"
  shows "\<exists>c' ev s'. for_objects vp objs (c, tr, s) = Inr (c', tr @ ev, s') \<and>
           ((\<exists>e \<in> set ev. replaces m e) \<longrightarrow>
              frustumCulled (meshes s' m) = (view_type (view_current vp) = RECTILINEAR)) \<and>
           ((\<forall>e \<in> set ev. \<not> replaces m e) \<longrightarrow> meshes s' m = meshes s m)"
  using assms
proof (induction objs arbitrary: c tr s)
  case Nil
  then show ?case by simp
next
  case (Cons obj objs)
  let ?cull = "view_type (view_current vp) = RECTILINEAR"
  from reconcile_culling [OF Cons.prems, of vp obj c tr m] obtain c1 ev1 s1 where
    r: "reconcile vp obj (c, tr, s) = Inr (c1, tr @ ev1, s1)" and
    a1: "(\<exists>e \<in> set ev1. replaces m e) \<longrightarrow> frustumCulled (meshes s1 m) = ?cull" and
    b1: "(\<forall>e \<in> set ev1. \<not> replaces m e) \<longrightarrow> meshes s1 m = meshes s m"
    by blast
  from reconcile_frame [OF r] Cons.prems have "viewer s1 = Some v" by simp
  from Cons.IH [OF this, of c1 "tr @ ev1"] obtain c' ev s' where
    f: "for_objects vp objs (c1, tr @ ev1, s1) = Inr (c', (tr @ ev1) @ ev, s')" and
    a2: "(\<exists>e \<in> set ev. replaces m e) \<longrightarrow> frustumCulled (meshes s' m) = ?cull" and
    b2: "(\<forall>e \<in> set ev. \<not> replaces m e) \<longrightarrow> meshes s' m = meshes s1 m"
    by blast
  have "for_objects vp (obj # objs) (c, tr, s) = Inr (c', tr @ (ev1 @ ev), s')"
    using r f by simp
  moreover have "(\<exists>e \<in> set (ev1 @ ev). replaces m e) \<longrightarrow> frustumCulled (meshes s' m) = ?cull"
    using a1 a2 b2 by (cases "\<exists>e \<in> set ev. replaces m e") auto
  moreover have "(\<forall>e \<in> set (ev1 @ ev). \<not> replaces m e) \<longrightarrow> meshes s' m = meshes s m"
    using b1 b2 by auto
  ultimately show ?case by blast
qed

lemma render_culling:
  assumes "viewer s = Some v" "scene s = Some sc" "children sc = Some ch"
    "objects s = Some objs" "picking s = Some p"
  shows "\<exists>tr s'. render s vp target = Inr (tr, s') \<and>
           viewer s' = Some v \<and> scene s' = Some sc \<and> objects s' = Some objs \<and>
           picking s' = Some p \<and>
           ((\<exists>e \<in> set tr. replaces m e) \<longrightarrow>
              frustumCulled (meshes s' m) = (view_type (view_current vp) = RECTILINEAR)) \<and>
           ((\<forall>e \<in> set tr. \<not> replaces m e) \<longrightarrow> meshes s' m = meshes s m)"
proof (cases "ch = []")
  case True
  with assms have "render s vp target = Inr ([], s)" by (simp add: render_def)
  with assms show ?thesis by simp
next
  case False
  from for_objects_culling [OF assms(1), of vp objs False "[]" m] obtain cn ev s1 where
    f: "for_objects vp objs (False, [], s) = Inr (cn, ev @ [], s1)" and
    a: "(\<exists>e \<in> set ev. replaces m e) \<longrightarrow>
          frustumCulled (meshes s1 m) = (view_type (view_current vp) = RECTILINEAR)" and
    b: "(\<forall>e \<in> set ev. \<not> replaces m e) \<longrightarrow> meshes s1 m = meshes s m"
    by auto
  from render_prefix [OF assms(1-3) False assms(4,5) f, of target] obtain tr s' where
    rn: "render s vp target = Inr (tr, s')" and
    fm: "filter is_MaterialReplaced tr = filter is_MaterialReplaced (ev @ [])" and
    ms: "meshes s' = meshes s1" and
    fr: "viewer s' = Some v" "scene s' = Some sc" "objects s' = Some objs" "picking s' = Some p"
    by blast
  have q: "(\<exists>e \<in> set xs. replaces m e)
          \<longleftrightarrow> (\<exists>e \<in> set (filter is_MaterialReplaced xs). replaced_mesh e = m)" for xs
    by (auto simp: replaces_def)
  have "(\<exists>e \<in> set tr. replaces m e) \<longleftrightarrow> (\<exists>e \<in> set ev. replaces m e)"
    unfolding q fm by simp
  with a b ms have
    "(\<exists>e \<in> set tr. replaces m e) \<longrightarrow>
       frustumCulled (meshes s' m) = (view_type (view_current vp) = RECTILINEAR)"
    "(\<forall>e \<in> set tr. \<not> replaces m e) \<longrightarrow> meshes s' m = meshes s m"
    by auto
  with rn fr show ?thesis by blast
qed

lemma render_frames_keep:
  assumes "viewer s = Some v" "scene s = Some sc" "children sc = Some ch"
    "objects s = Some objs" "picking s = Some p"
  shows "\<exists>tr s'. render_frames s fs = Inr (tr, s') \<and>
           ((\<forall>e \<in> set tr. \<not> replaces m e) \<longrightarrow> meshes s' m = meshes s m)"
  using assms
proof (induction fs arbitrary: s)
  case Nil
  then show ?case by simp
next
  case (Cons fr fs)
  obtain vp target where fr: "fr = (vp, target)" by (cases fr)
  from render_culling [OF Cons.prems, of vp target m] obtain tr1 s1 where
    r: "render s vp target = Inr (tr1, s1)" and
    l: "viewer s1 = Some v" "scene s1 = Some sc" "objects s1 = Some objs" "picking s1 = Some p" and
    k: "(\<forall>e \<in> set tr1. \<not> replaces m e) \<longrightarrow> meshes s1 m = meshes s m"
    by blast
  from Cons.IH [OF l(1,2) Cons.prems(3) l(3,4)] obtain tr2 s2 where
    f: "render_frames s1 fs = Inr (tr2, s2)" and
    k2: "(\<forall>e \<in> set tr2. \<not> replaces m e) \<longrightarrow> meshes s2 m = meshes s1 m"
    by blast
  have "render_frames s (fr # fs) = Inr (tr1 @ tr2, s2)"
    using r f by (simp add: fr)
  moreover have "(\<forall>e \<in> set (tr1 @ tr2). \<not> replaces m e) \<longrightarrow> meshes s2 m = meshes s m"
    using k k2 by auto
  ultimately show ?case by blast
qed










lemma cache_matches_after:
  "lastViewport s = Some vp \<Longrightarrow> lastViewType s = view_type (view_current vp) \<Longrightarrow>
     cache_matches s vp"
  by (simp add: cache_matches_def)





text \<open>
  Which condition each of the four instances with a repeated replacement breaks.
\<close>

lemma ex_counter_hypotheses:
  "distinct (map mesh [ex_object1])"
  "pool_separates ex_viewer UNDEFINED"
  "\<not> cache_matches ex_single (ex_viewport UNDEFINED)"
  "\<not> distinct (map mesh [ex_object3, ex_object1, ex_object4])"
  "pool_separates ex_viewer RECTILINEAR"
  "\<not> cache_matches ex_shared (ex_viewport RECTILINEAR)"
  "\<not> pool_separates \<lparr>getMaterialForView = ex_flat_pool, activeViewport = Some 50\<rparr> RECTILINEAR"
  "\<not> cache_matches ex_flat (ex_viewport RECTILINEAR)"
  "distinct (map mesh [ex_object2, ex_object1])"
  "cache_matches ex_unkeyed (ex_viewport RECTILINEAR)"
  "\<not> pool_keyed ex_viewer RECTILINEAR ex_unkeyed ex_object2"
  by (auto simp add: ex_defs pool_separates_def cache_matches_def pool_keyed_def)

lemma find_Some_mem: "find P xs = Some x \<Longrightarrow> x \<in> set xs \<and> P x"
  by (induction xs) (auto split: if_splits)

lemma boot_objects_children:
  "distinct (ch @ map mesh objs) \<Longrightarrow>
     fst (boot_objects cfo objs (ch, ms)) = ch @ map mesh objs"
proof (induction objs arbitrary: ch ms)
  case Nil
  then show ?case by simp
next
  case (Cons obj objs)
  from Cons.prems have notin: "mesh obj \<notin> set ch" by auto
  from Cons.prems have d: "distinct ((ch @ [mesh obj]) @ map mesh objs)" by auto
  from notin have "scene_add ch (mesh obj) = ch @ [mesh obj]"
    by (simp add: scene_add_def remove1_idem)
  with Cons.IH [OF d] show ?case by (simp add: Let_def)
qed

lemma boot_objects_meshes:
  "snd (boot_objects cfo objs (ch, ms)) r =
     (if r \<in> mesh ` set objs
      then (ms r)\<lparr>pickingColor := Some (cfo (mesh_id (ms r)))\<rparr> else ms r)"
proof (induction objs arbitrary: ch ms)
  case Nil
  then show ?case by simp
next
  case (Cons obj objs)
  show ?case by (simp add: Let_def Cons.IH)
qed

text \<open>
  The example instances are the ones the constructor builds; the scene of three
  hotspots is live, and these are its first two render calls for a rectilinear view.
\<close>

lemma ex_constructed:
  "ObjectRenderer ex_color ex_viewer ex_objects ex_mesh ex_material = Inr ex_state"
  "ObjectRenderer ex_color ex_viewer [ex_object1] ex_mesh ex_material = Inr ex_single"
  "ObjectRenderer ex_color ex_viewer [ex_object3, ex_object1, ex_object4] ex_mesh ex_material
     = Inr ex_shared"
  "ObjectRenderer ex_color \<lparr>getMaterialForView = ex_flat_pool, activeViewport = Some 50\<rparr>
     ex_objects ex_mesh ex_material = Inr ex_flat"
  by (simp_all add: ObjectRenderer_def boot_def ex_state_def ex_single_def ex_shared_def
        ex_flat_def ex_objects_def scene_add_def ex_object1_def ex_object2_def ex_object3_def
        ex_object4_def)

lemma ex_state_live:
  "viewer ex_state = Some ex_viewer"
  "scene ex_state = Some \<lparr>children = Some [1, 2, 3]\<rparr>"
  "children \<lparr>children = Some [1, 2, 3]\<rparr> = Some [1, 2, 3]"
  "[1, 2, 3] \<noteq> ([] :: ref list)"
  "objects ex_state = Some ex_objects"
  "picking ex_state = Some Picking"
  by (simp_all add: ex_state_def)


lemma ex_objects_split:
  "ex_objects = [] @ ex_object1 # [ex_object2, ex_object3]"
  "ex_objects = [ex_object1] @ ex_object2 # [ex_object3]"
  by (simp_all add: ex_objects_def)

lemma ex_first_render:
  "events_of (render ex_state (ex_viewport RECTILINEAR) 70) =
     Some [MaterialReplaced 1 RECTILINEAR ''color'' False, UpdateUniforms 20,
           MaterialReplaced 2 RECTILINEAR ''map'' True, UpdateUniforms 23,
           MaterialReplaced 3 RECTILINEAR ''color'' False, UpdateUniforms 20,
           WebGLCompile [1, 2, 3] 60, WebGLRender [1, 2, 3] 60 70, PickingRender 50]"
  by (simp add: ex_defs render_defs)

lemma ex_second_render:
  "events_of (render ex_rendered (ex_viewport RECTILINEAR) 70) =
     Some [UpdateUniforms 20, UpdateUniforms 23, UpdateUniforms 20,
           WebGLRender [1, 2, 3] 60 70, PickingRender 50]"
  by (simp add: ex_defs render_defs)

lemma render_events_state:
  "events_of (render s vp target) = Some tr \<Longrightarrow> render s vp target = Inr (tr, state_after s vp target)"
  by (auto simp: events_of_def state_after_def split: sum.splits)

section \<open>Pickable-set query\<close>

text \<open>
  Claim C3. On an instance that holds its object list, the pickable-set query is the
  filter of the list by \<open>ready \<and> interactive\<close>, a subsequence of the list in the original
  order, computed from the state it is called on. \<open>getPickableObjectWithId i\<close> returns
  without raising; an object it returns is an entry of the list that is ready and
  interactive and whose mesh has identity \<open>i\<close>; and it returns "not found" exactly when no
  ready and interactive entry has a mesh of identity \<open>i\<close>, so also for the identity of an
  entry that is not ready or not interactive.
\<close>

theorem getPickableObjectWithId_exact:
  assumes "objects s = Some objs"
  shows "getPickableObjects s = Inr (filter (\<lambda>obj. ready obj \<and> interactive obj) objs) \<and>
         subseq (filter (\<lambda>obj. ready obj \<and> interactive obj) objs) objs \<and>
         (\<exists>res. getPickableObjectWithId s i = Inr res \<and>
            (\<forall>obj. res = Some obj \<longrightarrow>
               obj \<in> set objs \<and> ready obj \<and> interactive obj \<and>
               mesh_id (meshes s (mesh obj)) = i) \<and>
            (res = None \<longleftrightarrow>
               \<not> (\<exists>obj \<in> set objs. ready obj \<and> interactive obj \<and>
                      mesh_id (meshes s (mesh obj)) = i)))"
proof -
  let ?pk = "filter (\<lambda>obj. ready obj \<and> interactive obj) objs"
  let ?res = "find (\<lambda>obj. mesh_id (meshes s (mesh obj)) = i) ?pk"
  have pe: "filter pickable objs = ?pk"
    by (rule filter_cong) (simp_all add: pickable_def)
  have pk: "getPickableObjects s = Inr ?pk"
    using assms pe by (simp add: getPickableObjects_def)
  have r: "getPickableObjectWithId s i = Inr ?res"
    by (simp add: getPickableObjectWithId_def pk)
  have some: "\<forall>obj. ?res = Some obj \<longrightarrow>
      obj \<in> set objs \<and> ready obj \<and> interactive obj \<and> mesh_id (meshes s (mesh obj)) = i"
  proof (intro allI impI)
    fix obj assume "?res = Some obj"
    from find_Some_mem [OF this] show
      "obj \<in> set objs \<and> ready obj \<and> interactive obj \<and> mesh_id (meshes s (mesh obj)) = i"
      by simp
  qed
  have none: "?res = None \<longleftrightarrow>
      \<not> (\<exists>obj \<in> set objs. ready obj \<and> interactive obj \<and> mesh_id (meshes s (mesh obj)) = i)"
    unfolding find_None_iff by auto
  show ?thesis
  proof (intro conjI exI)
    show "getPickableObjects s = Inr ?pk" by (rule pk)
    show "subseq ?pk objs" by simp
    show "getPickableObjectWithId s i = Inr ?res" by (rule r)
    show "\<forall>obj. ?res = Some obj \<longrightarrow>
      obj \<in> set objs \<and> ready obj \<and> interactive obj \<and> mesh_id (meshes s (mesh obj)) = i"
      by (rule some)
    show "?res = None \<longleftrightarrow>
      \<not> (\<exists>obj \<in> set objs. ready obj \<and> interactive obj \<and> mesh_id (meshes s (mesh obj)) = i)"
      by (rule none)
  qed
qed

theorem getPickableObjectWithId_exact_witness:
  "objects ex_state = Some ex_objects \<and>
   getPickableObjects ex_state = Inr [ex_object1] \<and>
   getPickableObjectWithId ex_state 101 = Inr (Some ex_object1) \<and>
   getPickableObjectWithId ex_state 102 = Inr None \<and>
   getPickableObjectWithId ex_state 103 = Inr None \<and>
   getPickableObjectWithId ex_state 7 = Inr None"
proof -
  have o: "objects ex_state = Some ex_objects" by (simp add: ex_state_def)
  have m: "mesh_id (meshes ex_state r) = 100 + int r" for r
    by (simp add: ex_state_def boot_objects_meshes ex_mesh_def del: boot_objects.simps)
  from getPickableObjectWithId_exact [OF o, of 101] getPickableObjectWithId_exact [OF o, of 102]
    getPickableObjectWithId_exact [OF o, of 103] getPickableObjectWithId_exact [OF o, of 7]
  show ?thesis
    by (simp add: o m getPickableObjectWithId_def ex_objects_def ex_object1_def ex_object2_def
          ex_object3_def)
qed

text \<open>
  Claim C10. When several pickable entries have a mesh of identity \<open>i\<close>, the lookup
  returns the one at the least index: the entry at \<open>k\<close> is returned as soon as it is
  pickable with identity \<open>i\<close> and no earlier entry is.
\<close>

theorem getPickableObjectWithId_first:
  assumes "objects s = Some objs"
    and "k < length objs"
    and "ready (objs ! k)" "interactive (objs ! k)"
    and "mesh_id (meshes s (mesh (objs ! k))) = i"
    and "\<forall>j < k. \<not> (ready (objs ! j) \<and> interactive (objs ! j) \<and>
                     mesh_id (meshes s (mesh (objs ! j))) = i)"
  shows "getPickableObjectWithId s i = Inr (Some (objs ! k))"
proof -
  let ?P = "\<lambda>obj. pickable obj \<and> mesh_id (meshes s (mesh obj)) = i"
  have f: "find (\<lambda>obj. mesh_id (meshes s (mesh obj)) = i) (filter pickable xs) = find ?P xs" for xs
    by (induction xs) auto
  have "find ?P objs = Some (objs ! k)"
    unfolding find_Some_iff using assms by (auto simp: pickable_def)
  then show ?thesis
    using assms(1) by (simp add: getPickableObjectWithId_def getPickableObjects_def f)
qed

theorem getPickableObjectWithId_first_witness:
  "getPickableObjectWithId ex_shared 101 = Inr (Some ex_object1) \<and>
   ready ex_object4 \<and> interactive ex_object4 \<and>
   mesh_id (meshes ex_shared (mesh ex_object4)) = 101 \<and> ex_object4 \<noteq> ex_object1"
proof -
  have m: "mesh_id (meshes ex_shared r) = 100 + int r" for r
    by (simp add: ex_shared_def boot_objects_meshes ex_mesh_def del: boot_objects.simps)
  have "getPickableObjectWithId ex_shared 101
          = Inr (Some ([ex_object3, ex_object1, ex_object4] ! 1))"
    by (rule getPickableObjectWithId_first)
       (simp_all add: m, simp_all add: ex_shared_def ex_object1_def ex_object3_def)
  then show ?thesis
    by (simp add: m) (simp add: ex_object1_def ex_object4_def)
qed

section \<open>Construction\<close>

text \<open>
  Claim C7. When the meshes of the input list have pairwise distinct identities and
  \<open>colorFromObjectID\<close> is injective on them, the constructor succeeds, the container has
  as many children as there are objects (the meshes, in order), every child carries the
  picking colour of its identity, and the colours of the children are pairwise distinct.
\<close>

theorem boot_children_and_colors:
  assumes ids: "distinct (map (\<lambda>obj. mesh_id (ms (mesh obj))) objs)"
    and inj: "inj_on cfo ((\<lambda>obj. mesh_id (ms (mesh obj))) ` set objs)"
  shows "\<exists>s ch. ObjectRenderer cfo v objs ms mats = Inr s \<and>
           scene s = Some \<lparr>children = Some ch\<rparr> \<and>
           length ch = length objs \<and>
           ch = map mesh objs \<and>
           (\<forall>c \<in> set ch. pickingColor (meshes s c) = Some (cfo (mesh_id (meshes s c)))) \<and>
           distinct (map (\<lambda>c. pickingColor (meshes s c)) ch)"
proof -
  have "map (\<lambda>obj. mesh_id (ms (mesh obj))) objs = map (\<lambda>r. mesh_id (ms r)) (map mesh objs)"
    by simp
  with ids have dm: "distinct (map mesh objs)"
    and im: "inj_on (\<lambda>r. mesh_id (ms r)) (set (map mesh objs))"
    by (simp_all only: distinct_map)
  obtain ch ms' where b: "boot_objects cfo objs ([], ms) = (ch, ms')"
    by (cases "boot_objects cfo objs ([], ms)")
  from boot_objects_children [of "[]" objs cfo ms] dm b have ch: "ch = map mesh objs"
    by simp
  from boot_objects_meshes [of cfo objs "[]" ms] b
  have ms': "ms' r = (if r \<in> mesh ` set objs
      then (ms r)\<lparr>pickingColor := Some (cfo (mesh_id (ms r)))\<rparr> else ms r)" for r
    by simp
  let ?s = "\<lparr>viewer = Some v, scene = Some \<lparr>children = Some ch\<rparr>, objects = Some objs,
             lastViewport = None, lastViewType = UNDEFINED, picking = Some Picking,
             meshes = ms', materials = mats\<rparr>"
  have s: "ObjectRenderer cfo v objs ms mats = Inr ?s"
    by (simp add: ObjectRenderer_def boot_def b)
  have col: "\<forall>c \<in> set ch. pickingColor (ms' c) = Some (cfo (mesh_id (ms' c)))"
    by (auto simp: ch ms')
  have "inj_on (\<lambda>c. pickingColor (ms' c)) (set ch)"
  proof (rule inj_onI)
    fix a b assume a: "a \<in> set ch" and b: "b \<in> set ch"
      and e: "pickingColor (ms' a) = pickingColor (ms' b)"
    from a b e have "cfo (mesh_id (ms a)) = cfo (mesh_id (ms b))"
      by (auto simp: ch ms')
    moreover from a b have "mesh_id (ms a) \<in> (\<lambda>obj. mesh_id (ms (mesh obj))) ` set objs"
      "mesh_id (ms b) \<in> (\<lambda>obj. mesh_id (ms (mesh obj))) ` set objs"
      by (auto simp: ch)
    ultimately have "mesh_id (ms a) = mesh_id (ms b)"
      using inj by (auto dest: inj_onD)
    with im a b show "a = b" by (auto simp: ch dest: inj_onD)
  qed
  moreover from dm ch have "distinct ch" by simp
  ultimately have "distinct (map (\<lambda>c. pickingColor (ms' c)) ch)"
    by (simp only: distinct_map)
  with s col ch show ?thesis by simp
qed

theorem boot_children_and_colors_witness:
  "distinct (map (\<lambda>obj. mesh_id (ex_mesh (mesh obj))) ex_objects) \<and>
   inj_on ex_color ((\<lambda>obj. mesh_id (ex_mesh (mesh obj))) ` set ex_objects) \<and>
   ObjectRenderer ex_color ex_viewer ex_objects ex_mesh ex_material = Inr ex_state \<and>
   scene ex_state = Some \<lparr>children = Some [1, 2, 3]\<rparr> \<and>
   map (\<lambda>c. pickingColor (meshes ex_state c)) [1, 2, 3] = [Some 101, Some 102, Some 103]"
proof -
  have d: "distinct (map (\<lambda>obj. mesh_id (ex_mesh (mesh obj))) ex_objects)"
    by (simp add: ex_objects_def ex_object1_def ex_object2_def ex_object3_def ex_mesh_def)
  have i: "inj_on ex_color ((\<lambda>obj. mesh_id (ex_mesh (mesh obj))) ` set ex_objects)"
    by (simp add: ex_objects_def ex_object1_def ex_object2_def ex_object3_def ex_mesh_def
          ex_color_def)
  have c: "ObjectRenderer ex_color ex_viewer ex_objects ex_mesh ex_material = Inr ex_state"
    by (simp add: ObjectRenderer_def boot_def ex_state_def ex_objects_def scene_add_def
          ex_object1_def ex_object2_def ex_object3_def)
  from boot_children_and_colors [OF d i, of ex_viewer ex_material] c d i show ?thesis
    by (simp add: ex_state_def boot_objects_meshes del: boot_objects.simps)
       (simp add: ex_objects_def ex_object1_def ex_object2_def ex_object3_def ex_mesh_def
          ex_color_def)
qed

section \<open>Render on an empty container\<close>

text \<open>
  Claim C5. A render call on an instance whose container has no children returns
  normally with no event (no draw call, no picking pass) and the state unchanged, the
  cached viewport and view type included; the instance built from the empty object list
  has an empty container, so render does nothing on it.
\<close>

theorem render_empty_noop:
  "(scene s = Some sc \<and> children sc = Some [] \<longrightarrow> render s vp target = Inr ([], s)) \<and>
   (\<exists>s0. ObjectRenderer cfo v [] ms mats = Inr s0 \<and> scene s0 = Some \<lparr>children = Some []\<rparr> \<and>
          render s0 vp target = Inr ([], s0))"
  by (simp add: render_def ObjectRenderer_def boot_def)

theorem render_empty_noop_witness:
  "scene (ex_state\<lparr>scene := Some \<lparr>children = Some []\<rparr>, objects := Some []\<rparr>)
     = Some \<lparr>children = Some []\<rparr> \<and>
   render (ex_state\<lparr>scene := Some \<lparr>children = Some []\<rparr>, objects := Some []\<rparr>)
       (ex_viewport RECTILINEAR) 70
     = Inr ([], ex_state\<lparr>scene := Some \<lparr>children = Some []\<rparr>, objects := Some []\<rparr>)"
  using render_empty_noop
    [of "ex_state\<lparr>scene := Some \<lparr>children = Some []\<rparr>, objects := Some []\<rparr>"
        "\<lparr>children = Some []\<rparr>" "ex_viewport RECTILINEAR" 70]
  by simp

section \<open>Destroy\<close>

text \<open>
  Claim C9. On a live instance destroy returns normally, calls the picking subsystem's
  destroy, and leaves the picking, object list, container, cached viewport and viewer
  references null. On the state it leaves, the picking-release step returns normally
  without any call; the second destroy then raises a TypeError further on, where it
  writes \<^verbatim>\<open>children\<close> of the null container.
\<close>

theorem destroy_releases:
  assumes "picking s = Some p" and "scene s = Some sc"
  shows "\<exists>s'. destroy s = Inr ([PickingDestroy, BaseObjectDestroy], s') \<and>
           picking s' = None \<and> objects s' = None \<and> scene s' = None \<and>
           lastViewport s' = None \<and> viewer s' = None \<and>
           release_picking s' = Inr ([], s') \<and>
           destroy s' = Inl (TypeError ''children'')"
  using assms
  by (simp add: destroy_def release_picking_def release_references_def Let_def)

theorem destroy_releases_witness:
  "picking ex_state = Some Picking \<and>
   scene ex_state = Some \<lparr>children = Some [1, 2, 3]\<rparr> \<and>
   events_of (destroy ex_state) = Some [PickingDestroy, BaseObjectDestroy] \<and>
   events_of (render_again (destroy ex_state) (ex_viewport RECTILINEAR) 70) = None"
proof -
  have p: "picking ex_state = Some Picking" by (simp add: ex_state_def)
  have s: "scene ex_state = Some \<lparr>children = Some [1, 2, 3]\<rparr>" by (simp add: ex_state_def)
  from destroy_releases [OF p s] obtain s' where
    "destroy ex_state = Inr ([PickingDestroy, BaseObjectDestroy], s')" "scene s' = None"
    by blast
  with p s show ?thesis by (simp add: events_of_def render_again_def render_def)
qed

section \<open>Picking pass\<close>

text \<open>
  Claim C4. A render call on a live instance with a non-empty container returns
  normally, and its events contain a picking render pass, exactly one and for the
  current viewport, if the viewer's active viewport is the current viewport and some
  object is ready and interactive; otherwise they contain none.
\<close>

theorem picking_pass_iff:
  assumes "viewer s = Some v" "scene s = Some sc" "children sc = Some ch" "ch \<noteq> []"
    "objects s = Some objs" "picking s = Some p"
  shows "\<exists>tr s' pk. render s vp target = Inr (tr, s') \<and>
           getPickableObjects s = Inr pk \<and>
           pk = filter (\<lambda>obj. ready obj \<and> interactive obj) objs \<and>
           filter is_PickingRender tr =
             (if activeViewport v = Some (vp_ref vp) \<and> pk \<noteq> []
              then [PickingRender (vp_ref vp)] else [])"
proof -
  from for_objects_events [OF assms(1), of vp objs False "[]"] obtain cn ev s1 where
    f: "for_objects vp objs (False, [], s) = Inr (cn, ev, s1)"
    and e: "\<forall>e \<in> set ev. is_MaterialReplaced e \<or> is_UpdateUniforms e"
    by auto
  from e have "\<forall>e \<in> set ev. \<not> is_PickingRender e"
    by (auto simp: is_MaterialReplaced_def is_UpdateUniforms_def)
  then have n: "filter is_PickingRender ev = []" by (simp add: filter_empty_conv)
  have pk: "getPickableObjects s = Inr (filter pickable objs)"
    using assms by (simp add: getPickableObjects_def)
  have pe: "filter pickable objs = filter (\<lambda>obj. ready obj \<and> interactive obj) objs"
    by (simp add: pickable_def [abs_def])
  from render_live [OF assms f, of target] n pk pe show ?thesis by simp
qed

theorem picking_pass_iff_witness:
  "viewer ex_state = Some ex_viewer \<and> activeViewport ex_viewer = Some 50 \<and>
   map_option (filter is_PickingRender) (events_of (render ex_state (ex_viewport RECTILINEAR) 70))
     = Some [PickingRender 50] \<and>
   map_option (filter is_PickingRender)
     (events_of (render (ex_state\<lparr>objects := Some [ex_object1\<lparr>interactive := False\<rparr>,
                                                    ex_object2, ex_object3]\<rparr>)
                        (ex_viewport RECTILINEAR) 70))
     = Some [] \<and>
   map_option (filter is_PickingRender)
     (events_of (render (ex_state\<lparr>viewer := Some (ex_viewer\<lparr>activeViewport := Some 51\<rparr>)\<rparr>)
                        (ex_viewport RECTILINEAR) 70))
     = Some []"
proof -
  have v: "viewer ex_state = Some ex_viewer" by (simp add: ex_state_def)
  have a: "activeViewport ex_viewer = Some 50" by (simp add: ex_viewer_def)
  have sc: "scene ex_state = Some \<lparr>children = Some [1, 2, 3]\<rparr>" by (simp add: ex_state_def)
  have ch: "children \<lparr>children = Some [1, 2, 3]\<rparr> = Some [1, 2, 3]" by simp
  have ne: "[1, 2, 3] \<noteq> ([] :: ref list)" by simp
  have ob: "objects ex_state = Some ex_objects" by (simp add: ex_state_def)
  have pk: "picking ex_state = Some Picking" by (simp add: ex_state_def)
  from picking_pass_iff [OF v sc ch ne ob pk, of "ex_viewport RECTILINEAR" 70]
  have 1: "map_option (filter is_PickingRender)
             (events_of (render ex_state (ex_viewport RECTILINEAR) 70)) = Some [PickingRender 50]"
    by (auto simp: events_of_def a ex_objects_def ex_object1_def ex_viewport_def)
  have 2: "map_option (filter is_PickingRender)
     (events_of (render (ex_state\<lparr>objects := Some [ex_object1\<lparr>interactive := False\<rparr>,
                                                    ex_object2, ex_object3]\<rparr>)
                        (ex_viewport RECTILINEAR) 70)) = Some []"
    by (simp add: ex_defs render_defs)
  have 3: "map_option (filter is_PickingRender)
     (events_of (render (ex_state\<lparr>viewer := Some (ex_viewer\<lparr>activeViewport := Some 51\<rparr>)\<rparr>)
                        (ex_viewport RECTILINEAR) 70)) = Some []"
    by (simp add: ex_defs render_defs)
  from v a 1 2 3 show ?thesis by simp
qed

section \<open>Material reconciliation\<close>




text \<open>
  Claim C2. In a render call on a live instance with a non-empty container, once the turn
  of any object is over, replaced or not, the material its mesh holds has the side,
  the transparency and the opacity of the object's descriptor and the uniforms that the
  view's \<open>updateUniforms\<close> made of those it had, and the turn's last event is the call of
  \<open>updateUniforms\<close> on that material; the whole call makes one such call per object.
\<close>

theorem material_refreshed_every_turn:
  assumes "viewer s = Some v" "scene s = Some sc" "children sc = Some ch" "ch \<noteq> []"
    "objects s = Some (pre @ obj # post)" "picking s = Some p"
  shows "\<exists>cj trj sj cj' trj' sj' tr s'.
           for_objects vp pre (False, [], s) = Inr (cj, trj, sj) \<and>
           reconcile vp obj (cj, trj, sj) = Inr (cj', trj', sj') \<and>
           render s vp target = Inr (tr, s') \<and> prefix trj' tr \<and>
           side (materials sj' (mesh_material (meshes sj' (mesh obj))))
             = getThreeSide (material obj) \<and>
           three_transparent (materials sj' (mesh_material (meshes sj' (mesh obj))))
             = transparent (material obj) \<and>
           three_opacity (materials sj' (mesh_material (meshes sj' (mesh obj))))
             = opacity (material obj) \<and>
           uniforms (materials sj' (mesh_material (meshes sj' (mesh obj))))
             = updateUniforms (view_current vp)
                 (uniforms (materials sj (mesh_material (meshes sj' (mesh obj))))) \<and>
           (\<exists>ev. trj' = trj @ ev @ [UpdateUniforms (mesh_material (meshes sj' (mesh obj)))]) \<and>
           length (filter is_UpdateUniforms tr) = length (pre @ obj # post)"
proof -
  from for_objects_split [OF assms(1), of vp pre False "[]" obj post]
  obtain cj evj sj cj' ev1 sj' c' ev2 s1 where
    f: "for_objects vp pre (False, [], s) = Inr (cj, evj, sj)" and
    vj: "viewer sj = Some v" and
    r: "reconcile vp obj (cj, evj, sj) = Inr (cj', evj @ ev1, sj')" and
    g: "for_objects vp (pre @ obj # post) (False, [], s) = Inr (c', (evj @ ev1) @ ev2, s1)"
    by auto
  from for_objects_events [OF assms(1), of vp "pre @ obj # post" False "[]"] g
  have u: "length (filter is_UpdateUniforms ((evj @ ev1) @ ev2)) = length (pre @ obj # post)"
    by auto
  from render_prefix [OF assms g, of target] obtain tr s' where
    rn: "render s vp target = Inr (tr, s')" and
    px: "prefix (evj @ ev1) tr" and
    ln: "length (filter is_UpdateUniforms tr)
           = length (filter is_UpdateUniforms ((evj @ ev1) @ ev2))"
    by blast
  let ?r = "mesh_material (meshes sj' (mesh obj))"
  from r have st: "side (materials sj' ?r) = getThreeSide (material obj) \<and>
      three_transparent (materials sj' ?r) = transparent (material obj) \<and>
      three_opacity (materials sj' ?r) = opacity (material obj) \<and>
      uniforms (materials sj' ?r)
        = updateUniforms (view_current vp) (uniforms (materials sj ?r)) \<and>
      (\<exists>ev. evj @ ev1 = evj @ ev @ [UpdateUniforms ?r])"
    unfolding reconcile_live [OF vj] by (auto simp: Let_def)
  from f r rn px st u ln show ?thesis
    by (intro exI [of _ cj] exI [of _ evj] exI [of _ sj] exI [of _ cj'] exI [of _ "evj @ ev1"]
          exI [of _ sj'] exI [of _ tr] exI [of _ s']) simp
qed

theorem material_refreshed_every_turn_witness:
  "map_option (filter is_UpdateUniforms)
     (events_of (render ex_state (ex_viewport RECTILINEAR) 70))
     = Some [UpdateUniforms 20, UpdateUniforms 23, UpdateUniforms 20] \<and>
   materials ex_rendered 23 =
     \<lparr>program = Some 23, side = FrontSide, three_transparent = True,
      three_opacity = 1 / 2, uniforms = [(''tProjectionScale'', 1)]\<rparr> \<and>
   map_option (filter is_UpdateUniforms)
     (events_of (render ex_rendered (ex_viewport RECTILINEAR) 70))
     = Some [UpdateUniforms 20, UpdateUniforms 23, UpdateUniforms 20]"
proof -
  let ?vp = "ex_viewport RECTILINEAR"
  have ob: "objects ex_state = Some ([ex_object1] @ ex_object2 # [ex_object3])"
    by (simp add: ex_state_def ex_objects_def)
  from material_refreshed_every_turn [OF ex_state_live(1-4) ob ex_state_live(6), of ?vp 70]
  obtain tr s' where
    r: "render ex_state ?vp 70 = Inr (tr, s')" and
    l: "length (filter is_UpdateUniforms tr) = length ([ex_object1] @ ex_object2 # [ex_object3])"
    by blast
  have 1: "map_option (filter is_UpdateUniforms) (events_of (render ex_state ?vp 70))
     = Some [UpdateUniforms 20, UpdateUniforms 23, UpdateUniforms 20]"
    by (simp add: ex_first_render)
  have 2: "materials ex_rendered 23 =
     \<lparr>program = Some 23, side = FrontSide, three_transparent = True,
      three_opacity = 1 / 2, uniforms = [(''tProjectionScale'', 1)]\<rparr>"
    by (simp add: ex_defs render_defs)
  have 3: "map_option (filter is_UpdateUniforms) (events_of (render ex_rendered ?vp 70))
     = Some [UpdateUniforms 20, UpdateUniforms 23, UpdateUniforms 20]"
    by (simp add: ex_second_render)
  from r l 1 2 3 show ?thesis by blast
qed

section \<open>Frustum culling\<close>

text \<open>
  Claim C6. After a render call that replaced the material of a mesh, the mesh's
  \<open>frustumCulled\<close> flag is true exactly when the view type of that call is RECTILINEAR,
  and it stays so through any further render calls that do not replace the material of
  that mesh.
\<close>

theorem frustum_culled_iff_rectilinear:
  assumes "viewer s = Some v" "scene s = Some sc" "children sc = Some ch"
    "objects s = Some objs" "picking s = Some p"
    and "render s vp target = Inr (tr, s1)"
    and "\<exists>e \<in> set tr. replaces m e"
    and "render_frames s1 fs = Inr (tr', s2)"
    and "\<forall>e \<in> set tr'. \<not> replaces m e"
  shows "frustumCulled (meshes s1 m) = (view_type (view_current vp) = RECTILINEAR) \<and>
         frustumCulled (meshes s2 m) = (view_type (view_current vp) = RECTILINEAR)"
proof -
  from render_culling [OF assms(1-5), of vp target m] assms(6,7) have
    l: "viewer s1 = Some v" "scene s1 = Some sc" "objects s1 = Some objs" "picking s1 = Some p" and
    c1: "frustumCulled (meshes s1 m) = (view_type (view_current vp) = RECTILINEAR)"
    by auto
  from render_frames_keep [OF l(1,2) assms(3) l(3,4), of fs m] assms(8,9)
  have "meshes s2 m = meshes s1 m" by auto
  with c1 show ?thesis by simp
qed

theorem frustum_culled_iff_rectilinear_witness:
  "(\<exists>s2. render_frames ex_rendered [(ex_viewport RECTILINEAR, 70), (ex_viewport RECTILINEAR, 71)]
           = Inr ([UpdateUniforms 20, UpdateUniforms 23, UpdateUniforms 20,
                   WebGLRender [1, 2, 3] 60 70, PickingRender 50,
                   UpdateUniforms 20, UpdateUniforms 23, UpdateUniforms 20,
                   WebGLRender [1, 2, 3] 60 71, PickingRender 50], s2) \<and>
         frustumCulled (meshes s2 2)) \<and>
   frustumCulled (meshes ex_rendered 2) \<and>
   \<not> frustumCulled (meshes (state_after ex_state (ex_viewport (OtherProjection 0)) 70) 2)"
proof -
  let ?vp = "ex_viewport RECTILINEAR"
  let ?tr1 = "[MaterialReplaced 1 RECTILINEAR ''color'' False, UpdateUniforms 20,
           MaterialReplaced 2 RECTILINEAR ''map'' True, UpdateUniforms 23,
           MaterialReplaced 3 RECTILINEAR ''color'' False, UpdateUniforms 20,
           WebGLCompile [1, 2, 3] 60, WebGLRender [1, 2, 3] 60 70, PickingRender 50]"
  let ?tr2 = "[UpdateUniforms 20, UpdateUniforms 23, UpdateUniforms 20,
                   WebGLRender [1, 2, 3] 60 70, PickingRender 50,
                   UpdateUniforms 20, UpdateUniforms 23, UpdateUniforms 20,
                   WebGLRender [1, 2, 3] 60 71, PickingRender 50]"
  have r1: "render ex_state ?vp 70 = Inr (?tr1, ex_rendered)"
    unfolding ex_rendered_def by (rule render_events_state [OF ex_first_render])
  have e1: "\<exists>e \<in> set ?tr1. replaces 2 e" by (simp add: replaces_def)
  have "events_of (render_frames ex_rendered [(?vp, 70), (?vp, 71)]) = Some ?tr2"
    by (simp add: ex_defs render_defs)
  then obtain s2 where r2: "render_frames ex_rendered [(?vp, 70), (?vp, 71)] = Inr (?tr2, s2)"
    by (auto simp: events_of_def split: sum.splits)
  have e2: "\<forall>e \<in> set ?tr2. \<not> replaces 2 e" by (simp add: replaces_def)
  from frustum_culled_iff_rectilinear [OF ex_state_live(1-3,5,6) r1 e1 r2 e2]
  have c: "frustumCulled (meshes ex_rendered 2)" "frustumCulled (meshes s2 2)"
    by (simp_all add: ex_viewport_def)
  let ?vo = "ex_viewport (OtherProjection 0)"
  let ?tro = "[MaterialReplaced 1 (OtherProjection 0) ''color'' False, UpdateUniforms 30,
           MaterialReplaced 2 (OtherProjection 0) ''map'' True, UpdateUniforms 33,
           MaterialReplaced 3 (OtherProjection 0) ''color'' False, UpdateUniforms 30,
           WebGLCompile [1, 2, 3] 60, WebGLRender [1, 2, 3] 60 70, PickingRender 50]"
  have "events_of (render ex_state ?vo 70) = Some ?tro"
    by (simp add: ex_defs render_defs)
  from render_events_state [OF this]
  have r3: "render ex_state ?vo 70 = Inr (?tro, state_after ex_state ?vo 70)" .
  have e3: "\<exists>e \<in> set ?tro. replaces 2 e" by (simp add: replaces_def)
  have r4: "render_frames (state_after ex_state ?vo 70) [] = Inr ([], state_after ex_state ?vo 70)"
    by simp
  have e4: "\<forall>e \<in> set []. \<not> replaces 2 e" by simp
  from frustum_culled_iff_rectilinear [OF ex_state_live(1-3,5,6) r3 e3 r4 e4]
  have o: "\<not> frustumCulled (meshes (state_after ex_state ?vo 70) 2)"
    by (simp add: ex_viewport_def)
  from r2 c o show ?thesis by blast
qed

section \<open>Pre-compilation\<close>

text \<open>
  Claim C8. In a render call on a live instance with a non-empty container, the calls to
  the WebGL renderer are a pre-compilation of the container against the camera followed
  by the draw call, if the material of the mesh of some object had no program when the
  loop reached that object; otherwise they are the draw call alone.
\<close>

theorem compile_iff_uncompiled:
  assumes "viewer s = Some v" "scene s = Some sc" "children sc = Some ch" "ch \<noteq> []"
    "objects s = Some objs" "picking s = Some p"
  shows "\<exists>tr s'. render s vp target = Inr (tr, s') \<and>
           filter is_draw_call tr =
             (if \<exists>pre obj post cj trj sj. objs = pre @ obj # post \<and>
                   for_objects vp pre (False, [], s) = Inr (cj, trj, sj) \<and>
                   program (materials sj (mesh_material (meshes sj (mesh obj)))) = None
              then [WebGLCompile ch (camera_main vp), WebGLRender ch (camera_main vp) target]
              else [WebGLRender ch (camera_main vp) target])"
proof -
  from for_objects_events [OF assms(1), of vp objs False "[]"] obtain cn ev s1 where
    f: "for_objects vp objs (False, [], s) = Inr (cn, ev, s1)"
    and e: "\<forall>e \<in> set ev. is_MaterialReplaced e \<or> is_UpdateUniforms e"
    by auto
  from e have "\<forall>e \<in> set ev. \<not> is_draw_call e"
    by (auto simp: is_MaterialReplaced_def is_UpdateUniforms_def is_draw_call_def)
  then have n: "filter is_draw_call ev = []"
    by (simp add: filter_empty_conv)
  from for_objects_flag [OF f]
  have cn: "cn = (\<exists>pre obj post cj trj sj. objs = pre @ obj # post \<and>
                   for_objects vp pre (False, [], s) = Inr (cj, trj, sj) \<and>
                   program (materials sj (mesh_material (meshes sj (mesh obj)))) = None)"
    by simp
  have r: "render s vp target =
    Inr (ev @ (if cn then [WebGLCompile ch (camera_main vp)] else [])
            @ [WebGLRender ch (camera_main vp) target]
            @ (if activeViewport v = Some (vp_ref vp) \<and> filter pickable objs \<noteq> []
               then [PickingRender (vp_ref vp)] else []),
         s1\<lparr>lastViewport := Some vp, lastViewType := view_type (view_current vp)\<rparr>)"
    by (rule render_live [OF assms f])
  have "filter is_draw_call
          (ev @ (if cn then [WebGLCompile ch (camera_main vp)] else [])
            @ [WebGLRender ch (camera_main vp) target]
            @ (if activeViewport v = Some (vp_ref vp) \<and> filter pickable objs \<noteq> []
               then [PickingRender (vp_ref vp)] else []))
        = (if cn then [WebGLCompile ch (camera_main vp), WebGLRender ch (camera_main vp) target]
           else [WebGLRender ch (camera_main vp) target])"
    by (simp add: n is_draw_call_def)
  then show ?thesis unfolding r cn [symmetric] by blast
qed

theorem compile_iff_uncompiled_witness:
  "program (materials ex_state (mesh_material (meshes ex_state (mesh ex_object1)))) = None \<and>
   map_option (filter is_draw_call) (events_of (render ex_state (ex_viewport RECTILINEAR) 70))
     = Some [WebGLCompile [1, 2, 3] 60, WebGLRender [1, 2, 3] 60 70] \<and>
   map_option (filter is_draw_call) (events_of (render ex_rendered (ex_viewport RECTILINEAR) 70))
     = Some [WebGLRender [1, 2, 3] 60 70]"
proof -
  let ?vp = "ex_viewport RECTILINEAR"
  have p: "program (materials ex_state (mesh_material (meshes ex_state (mesh ex_object1)))) = None"
    by (simp add: ex_defs)
  have f: "for_objects ?vp [] (False, [], ex_state) = Inr (False, [], ex_state)" by simp
  from ex_objects_split(1) f p
  have d: "\<exists>pre obj post cj trj sj. ex_objects = pre @ obj # post \<and>
             for_objects ?vp pre (False, [], ex_state) = Inr (cj, trj, sj) \<and>
             program (materials sj (mesh_material (meshes sj (mesh obj)))) = None"
    by blast
  from compile_iff_uncompiled [OF ex_state_live, of ?vp 70] d
  obtain tr s' where
    r: "render ex_state ?vp 70 = Inr (tr, s')" and
    c: "filter is_draw_call tr
          = [WebGLCompile [1, 2, 3] (camera_main ?vp), WebGLRender [1, 2, 3] (camera_main ?vp) 70]"
    by auto
  from r c have 1: "map_option (filter is_draw_call) (events_of (render ex_state ?vp 70))
     = Some [WebGLCompile [1, 2, 3] 60, WebGLRender [1, 2, 3] 60 70]"
    by (simp add: events_of_def ex_viewport_def)
  have 2: "map_option (filter is_draw_call) (events_of (render ex_rendered ?vp 70))
     = Some [WebGLRender [1, 2, 3] 60 70]"
    by (simp add: ex_second_render is_draw_call_def)
  from p 1 2 show ?thesis by blast
qed

end
